theory Spec2Isabelle
  imports Main "HOL-Library.Word"
begin

section \<open>Data model of \<open>event.hpp\<close>\<close>

text \<open>
  \<open>Address\<close> and \<open>Identifier\<close> are both \<open>uint64_t\<close> in the source. A receiver pointer and
  a member-function pointer enter the model as the 64-bit value that the source reads back
  through its \<open>AddressCast\<close> overlay.
\<close>

type_synonym Address = "64 word"
type_synonym Identifier = "64 word"

datatype EventFlag = DEFAULT | ONLY_UNIQUE

text \<open>
  A \<open>Handler\<close> is a \<open>std::function<void(Args...)>\<close>. The source builds one in two ways:
  \<open>std::bind(member, instance, ...)\<close> inside \<open>bind\<close>, recorded here as \<open>Bound member instance\<close>,
  and a caller-supplied callable handed to \<open>operator+=\<close>, recorded as \<open>Lambda n\<close> with \<open>n\<close>
  naming the closure. What running a handler does is given separately, by the program
  that owns the event (the parameter \<open>invoke\<close> of \<open>fire\<close> below). A member pointer is
  known here only by the word that \<open>AddressCast\<close> reads from it, so \<open>Bound member instance\<close>
  is the callable of a \<open>bind\<close> call with these two words; which callable runs is stated
  below only of an entry that its \<open>bind\<close> has inserted.
\<close>

datatype Handler = Bound Address Address | Lambda nat

text \<open>
  The only data member: \<open>std::unordered_map<Identifier, Handler> subscribers\<close>. The table
  is kept as the list of its entries in the order in which an iteration visits them.
\<close>

record Event =
  subscribers :: "(Identifier \<times> Handler) list"

definition empty_Event :: Event where
  "empty_Event = \<lparr>subscribers = []\<rparr>"

subsection \<open>The three container operations the class uses\<close>

text \<open>
  \<open>find\<close> returns the position of the entry stored under a key (\<open>None\<close> stands for
  \<open>end()\<close>), \<open>erase\<close> removes the entry at a position, and \<open>insert\<close> adds an entry unless the
  key is already taken, in which case the container is left as it was. The container
  does not say where an iteration meets a new entry; here it comes last. The properties
  proved of \<open>fire\<close> count calls and do not depend on that choice.
\<close>

fun umap_find :: "Identifier \<Rightarrow> (Identifier \<times> Handler) list \<Rightarrow> nat option" where
  "umap_find a [] = None"
| "umap_find a (p # ps) = (if fst p = a then Some 0 else map_option Suc (umap_find a ps))"

definition umap_erase :: "nat \<Rightarrow> (Identifier \<times> Handler) list \<Rightarrow> (Identifier \<times> Handler) list" where
  "umap_erase it t = take it t @ drop (Suc it) t"

definition umap_insert ::
    "Identifier \<times> Handler \<Rightarrow> (Identifier \<times> Handler) list \<Rightarrow> (Identifier \<times> Handler) list" where
  "umap_insert p t = (case umap_find (fst p) t of Some it \<Rightarrow> t | None \<Rightarrow> t @ [p])"

text \<open>Keys of an \<open>unordered_map\<close> are unique.\<close>

definition Event_inv :: "Event \<Rightarrow> bool" where
  "Event_inv ev = distinct (map fst (subscribers ev))"

section \<open>Operations\<close>

subsection \<open>Maximum arity\<close>

text \<open>
  \<open>static constexpr auto _MAX_EVENT_ARGS = 4\<close> and
  \<open>static_assert(sizeof...(Args) <= _MAX_EVENT_ARGS, "Too many arguments")\<close>.
  The parameter pack is represented by its length. Instantiating the class template
  either fails with the diagnostic or yields an event with an empty table.
\<close>

definition MAX_EVENT_ARGS :: nat where
  "MAX_EVENT_ARGS = 4"

datatype CompileError = Too_many_arguments

definition instantiate_Event :: "nat \<Rightarrow> CompileError + Event" where
  "instantiate_Event sizeof_Args =
     (if sizeof_Args \<le> MAX_EVENT_ARGS then Inr empty_Event else Inl Too_many_arguments)"

subsection \<open>Identity derivation\<close>

text \<open>
  \<open>_identify(_class, _member)\<close> returns
  \<open>AddressCast<C>(_class).address * 10 + AddressCast<M>(_member).address\<close> in \<open>uint64_t\<close>.
\<close>

definition identify :: "Address \<Rightarrow> Address \<Rightarrow> Identifier" where
  "identify class_addr member_addr = class_addr * 10 + member_addr"

subsection \<open>Membership, insertion and removal\<close>

definition hasSubscriber :: "Address \<Rightarrow> Event \<Rightarrow> bool" where
  "hasSubscriber a ev = (umap_find a (subscribers ev) \<noteq> None)"

definition addToList :: "Address \<Rightarrow> Handler \<Rightarrow> EventFlag \<Rightarrow> Event \<Rightarrow> Event" where
  "addToList a h flag ev =
     (if flag = ONLY_UNIQUE \<and> hasSubscriber a ev then ev
      else ev\<lparr>subscribers := umap_insert (a, h) (subscribers ev)\<rparr>)"

definition removeFromList :: "Address \<Rightarrow> Event \<Rightarrow> Event" where
  "removeFromList a ev =
     (case umap_find a (subscribers ev) of
        Some it \<Rightarrow> ev\<lparr>subscribers := umap_erase it (subscribers ev)\<rparr>
      | None \<Rightarrow> ev)"

text \<open>
  The five \<open>bind\<close> overloads differ only in the number of placeholders handed to
  \<open>std::bind\<close>; likewise the five \<open>unbind\<close> overloads have one body.
\<close>

definition bind :: "Address \<Rightarrow> Address \<Rightarrow> EventFlag \<Rightarrow> Event \<Rightarrow> Event" where
  "bind member inst flag ev = addToList (identify inst member) (Bound member inst) flag ev"

definition unbind :: "Address \<Rightarrow> Address \<Rightarrow> Event \<Rightarrow> Event" where
  "unbind member inst ev = removeFromList (identify inst member) ev"

text \<open>
  \<open>operator+=(Handler lambda)\<close> calls \<open>_addToList(_identify(&lambda, 0), lambda, DEFAULT)\<close>.
  \<open>slot\<close> is the address of the by-value parameter, and \<open>zero_overlay\<close> is what the
  eight-byte overlay reads back from the \<open>int\<close> literal \<open>0\<close>, of which only four bytes are
  initialised.
\<close>

definition subscribe :: "Address \<Rightarrow> Identifier \<Rightarrow> nat \<Rightarrow> Event \<Rightarrow> Event" where
  "subscribe slot zero_overlay lam ev =
     addToList (identify slot zero_overlay) (Lambda lam) DEFAULT ev"

subsection \<open>Dispatch\<close>

text \<open>
  The event is a member of some larger program. \<open>'x World\<close> is the state of that program:
  the event itself and everything else (\<open>rest\<close>). Calling a handler is a step of the
  surrounding program: it may change any part of the state, the event included, and it
  either returns or throws. The buckets of the container are not part of \<open>Event\<close>, so
  whether the insertions a handler makes push the table over its load factor is told by
  the step as well: \<open>Invalidated\<close> is a call that returned after making the container
  rehash, which invalidates every iterator into the table. \<open>fire\<close> is given that
  behaviour as \<open>invoke\<close>.
\<close>

record 'x World =
  event :: Event
  rest :: 'x

datatype 'w Outcome = Returned 'w | Thrown 'w | Invalidated 'w

fun state_of :: "'w Outcome \<Rightarrow> 'w" where
  "state_of (Returned w) = w"
| "state_of (Thrown w) = w"
| "state_of (Invalidated w) = w"

text \<open>
  \<open>for (auto subscriber : subscribers) subscriber.second(e...);\<close>

  The iterator of the range-for is a node of the container's chain. The loop state
  \<open>ahead\<close> is the part of the chain from the iterator to the end: its head is the entry
  the iterator points to. Each round copies that entry and calls its handler with \<open>e\<close>.
  An exception leaves the loop at once (there is no handler for it in \<open>fire\<close>). When the
  call returns, the iterator advances along the chain as the handler left it: entries
  that were erased meanwhile are not met any more, whether they were visited or not,
  and erasing other entries has no effect on the iterator. If the handler erased the
  entry the iterator points to, or made the container rehash, the iterator is no longer
  valid and what the loop does next is not defined: the run ends as \<open>Invalidated\<close>.
  The container leaves open whether an iteration in progress meets an entry that was
  inserted meanwhile; here it does not, such entries are met by later calls of \<open>fire\<close>.
  Besides the final state the loop returns the calls made, in order, each as the handler
  and the arguments it received. The loop is given as a partial function in the option
  monad; that it returns is part of what is proved of it.
\<close>

partial_function (option) fire_loop ::
  "(Handler \<Rightarrow> 'a \<Rightarrow> 'x World \<Rightarrow> 'x World Outcome) \<Rightarrow> 'a \<Rightarrow> (Identifier \<times> Handler) list
     \<Rightarrow> (Handler \<times> 'a) list \<Rightarrow> 'x World \<Rightarrow> ('x World Outcome \<times> (Handler \<times> 'a) list) option" where
  "fire_loop invoke e ahead calls w =
     (case ahead of
        [] \<Rightarrow> Some (Returned w, calls)
      | subscriber # others \<Rightarrow>
          (case invoke (snd subscriber) e w of
             Returned w' \<Rightarrow>
               if subscriber \<in> set (subscribers (event w'))
               then fire_loop invoke e (filter (\<lambda>p. p \<in> set (subscribers (event w'))) others)
                      (calls @ [(snd subscriber, e)]) w'
               else Some (Invalidated w', calls @ [(snd subscriber, e)])
           | Thrown w' \<Rightarrow> Some (Thrown w', calls @ [(snd subscriber, e)])
           | Invalidated w' \<Rightarrow> Some (Invalidated w', calls @ [(snd subscriber, e)])))"

declare fire_loop.simps [code]

definition fire ::
  "(Handler \<Rightarrow> 'a \<Rightarrow> 'x World \<Rightarrow> 'x World Outcome) \<Rightarrow> 'a \<Rightarrow> 'x World
     \<Rightarrow> ('x World Outcome \<times> (Handler \<times> 'a) list) option" where
  "fire invoke e w = fire_loop invoke e (subscribers (event w)) [] w"

text \<open>\<open>operator()\<close> "doubles as a fire function".\<close>

definition call_operator ::
  "(Handler \<Rightarrow> 'a \<Rightarrow> 'x World \<Rightarrow> 'x World Outcome) \<Rightarrow> 'a \<Rightarrow> 'x World
     \<Rightarrow> ('x World Outcome \<times> (Handler \<times> 'a) list) option" where
  "call_operator invoke e w = fire invoke e w"

subsection \<open>Sequences of registration calls\<close>

text \<open>A client's calls on the public registration interface, for statements about call sequences.\<close>

datatype Operation =
    Bind Address Address EventFlag
  | Unbind Address Address
  | Subscribe Address Identifier nat

fun perform :: "Operation \<Rightarrow> Event \<Rightarrow> Event" where
  "perform (Bind member inst flag) ev = bind member inst flag ev"
| "perform (Unbind member inst) ev = unbind member inst ev"
| "perform (Subscribe slot zero_overlay lam) ev = subscribe slot zero_overlay lam ev"

definition perform_all :: "Operation list \<Rightarrow> Event \<Rightarrow> Event" where
  "perform_all ops ev = fold perform ops ev"


text \<open>
  Every entry made by \<open>bind\<close> sits under the identity derived from its own pair; entries
  made by \<open>operator+=\<close> are not constrained.
\<close>

definition bound_keyed :: "Event \<Rightarrow> bool" where
  "bound_keyed ev =
     list_all (\<lambda>p. case snd p of Bound member inst \<Rightarrow> fst p = identify inst member
                              | Lambda lam \<Rightarrow> True) (subscribers ev)"

text \<open>A program whose handlers only append the call to a log kept in \<open>rest\<close>.\<close>

definition logging :: "Handler \<Rightarrow> 'a \<Rightarrow> (Handler \<times> 'a) list World \<Rightarrow> (Handler \<times> 'a) list World Outcome" where
  "logging h e w = Returned (w\<lparr>rest := rest w @ [(h, e)]\<rparr>)"






subsection \<open>The usage example\<close>

text \<open>
  The constructor of \<open>Consumer\<close> in \<open>example.cpp\<close>: two member handlers are bound on
  \<open>this\<close>, the second is bound again with \<open>ONLY_UNIQUE\<close> and then unbound, and a lambda
  is subscribed. The addresses are chosen for illustration; the arguments are the
  reversed string.
\<close>

definition Consumer_World :: "(Handler \<times> string) list World" where
  "Consumer_World =
     \<lparr>event = perform_all
        [Bind 0x401230 0x7FFC1000 DEFAULT,
         Bind 0x401290 0x7FFC1000 DEFAULT,
         Bind 0x401290 0x7FFC1000 ONLY_UNIQUE,
         Unbind 0x401290 0x7FFC1000,
         Subscribe 0x7FFC0F00 0 0] empty_Event,
      rest = []\<rparr>"


definition Occupied_Event :: Event where
  "Occupied_Event = bind 0x400050 0x1000 DEFAULT empty_Event"


section \<open>Facts about the container operations\<close>

lemma umap_find_None_iff: "umap_find a t = None \<longleftrightarrow> a \<notin> fst ` set t"
  by (induction t) auto

lemma umap_find_SomeD: "umap_find a t = Some i \<Longrightarrow> i < length t \<and> fst (t ! i) = a"
  by (induction t arbitrary: i) (auto split: if_splits)

lemma umap_find_map_of: "umap_find a t = Some i \<Longrightarrow> map_of t a = Some (snd (t ! i))"
  by (induction t arbitrary: i) (auto split: if_splits)

lemma map_of_None_find: "map_of t a = None \<longleftrightarrow> umap_find a t = None"
  by (simp add: umap_find_None_iff map_of_eq_None_iff)

lemma hasSubscriber_iff: "hasSubscriber a ev \<longleftrightarrow> a \<in> fst ` set (subscribers ev)"
  by (simp add: hasSubscriber_def umap_find_None_iff)

lemma hasSubscriber_map_of: "hasSubscriber a ev \<longleftrightarrow> map_of (subscribers ev) a \<noteq> None"
  by (simp add: hasSubscriber_def map_of_None_find)

lemma map_of_umap_erase:
  "distinct (map fst t) \<Longrightarrow> umap_find a t = Some i \<Longrightarrow> map_of (umap_erase i t) = (map_of t)(a := None)"
proof (induction t arbitrary: i)
  case Nil
  then show ?case by simp
next
  case (Cons p ps)
  show ?case
  proof (cases "fst p = a")
    case True
    with Cons.prems have "i = 0" by simp
    moreover from Cons.prems True have "a \<notin> fst ` set ps" by auto
    then have "map_of ps a = None" by (simp add: map_of_eq_None_iff)
    ultimately show ?thesis using True
      by (cases p) (auto simp: umap_erase_def fun_eq_iff)
  next
    case False
    with Cons.prems obtain j where j: "umap_find a ps = Some j" "i = Suc j" by auto
    from Cons.prems have "distinct (map fst ps)" by simp
    from Cons.IH[OF this j(1)] have "map_of (umap_erase j ps) = (map_of ps)(a := None)" .
    then show ?thesis using False j(2)
      by (cases p) (auto simp: umap_erase_def fun_eq_iff)
  qed
qed

lemma set_umap_erase_subset: "set (umap_erase i t) \<subseteq> set t"
  by (auto simp: umap_erase_def dest: in_set_takeD in_set_dropD)

lemma distinct_take_drop: "distinct xs \<Longrightarrow> distinct (take i xs @ drop (Suc i) xs)"
proof (induction xs arbitrary: i)
  case Nil
  then show ?case by simp
next
  case (Cons x xs)
  show ?case
  proof (cases i)
    case 0
    with Cons.prems show ?thesis by simp
  next
    case (Suc j)
    have "x \<notin> set (take j xs)" "x \<notin> set (drop (Suc j) xs)"
      using Cons.prems by (auto dest: in_set_takeD in_set_dropD)
    moreover have "distinct (take j xs @ drop (Suc j) xs)"
      using Cons.IH Cons.prems by simp
    ultimately show ?thesis using Suc by simp
  qed
qed

lemma distinct_umap_erase: "distinct (map fst t) \<Longrightarrow> distinct (map fst (umap_erase i t))"
  using distinct_take_drop [of "map fst t" i]
  by (simp add: umap_erase_def take_map drop_map)

lemma map_of_umap_insert_absent:
  "map_of t a = None \<Longrightarrow> map_of (umap_insert (a, h) t) = (map_of t)(a \<mapsto> h)"
proof -
  assume n: "map_of t a = None"
  then have "umap_find a t = None" by (simp add: map_of_None_find)
  then have "umap_insert (a, h) t = t @ [(a, h)]" by (simp add: umap_insert_def)
  then show ?thesis using n by (auto simp: map_add_def fun_eq_iff split: option.splits)
qed

lemma umap_insert_present:
  "map_of t a \<noteq> None \<Longrightarrow> umap_insert (a, h) t = t"
  by (auto simp: umap_insert_def map_of_None_find split: option.splits)

lemma distinct_umap_insert: "distinct (map fst t) \<Longrightarrow> distinct (map fst (umap_insert p t))"
  by (auto simp: umap_insert_def umap_find_None_iff split: option.splits)

lemma length_umap_erase: "umap_find a t = Some i \<Longrightarrow> Suc (length (umap_erase i t)) = length t"
  by (auto simp: umap_erase_def dest!: umap_find_SomeD)

lemma filter_key_unique:
  "distinct (map fst t) \<Longrightarrow> a \<in> fst ` set t \<Longrightarrow> length (filter (\<lambda>p. fst p = a) t) = 1"
proof (induction t)
  case Nil
  then show ?case by simp
next
  case (Cons p ps)
  show ?case
  proof (cases "fst p = a")
    case True
    with Cons.prems have "a \<notin> fst ` set ps" by auto
    then have "filter (\<lambda>q. fst q = a) ps = []" by (auto simp: filter_empty_conv)
    with True show ?thesis by simp
  next
    case False
    with Cons show ?thesis by auto
  qed
qed

subsection \<open>Facts about insertion and removal\<close>

lemma addToList_flag_irrelevant: "addToList a h flag ev = addToList a h DEFAULT ev"
  by (cases flag) (auto simp: addToList_def hasSubscriber_map_of umap_insert_present)

lemma addToList_present: "hasSubscriber a ev \<Longrightarrow> addToList a h flag ev = ev"
  by (simp add: addToList_def hasSubscriber_map_of umap_insert_present)

lemma map_of_addToList_absent:
  "\<not> hasSubscriber a ev \<Longrightarrow>
     map_of (subscribers (addToList a h flag ev)) = (map_of (subscribers ev))(a \<mapsto> h)"
  by (simp add: addToList_def hasSubscriber_map_of map_of_umap_insert_absent)

lemma subscribers_addToList_absent:
  "\<not> hasSubscriber a ev \<Longrightarrow> subscribers (addToList a h flag ev) = subscribers ev @ [(a, h)]"
  by (simp add: addToList_def hasSubscriber_def umap_insert_def)

lemma hasSubscriber_addToList: "hasSubscriber b (addToList a h flag ev) \<longleftrightarrow> b = a \<or> hasSubscriber b ev"
proof (cases "hasSubscriber a ev")
  case True
  then show ?thesis by (auto simp: addToList_present)
next
  case False
  then show ?thesis by (auto simp: subscribers_addToList_absent hasSubscriber_iff)
qed

lemma Event_inv_addToList: "Event_inv ev \<Longrightarrow> Event_inv (addToList a h flag ev)"
  by (simp add: Event_inv_def addToList_def distinct_umap_insert)

lemma removeFromList_absent: "\<not> hasSubscriber a ev \<Longrightarrow> removeFromList a ev = ev"
  by (simp add: removeFromList_def hasSubscriber_def)

lemma map_of_removeFromList:
  "Event_inv ev \<Longrightarrow> map_of (subscribers (removeFromList a ev)) = (map_of (subscribers ev))(a := None)"
proof (cases "umap_find a (subscribers ev)")
  case None
  then have "map_of (subscribers ev) a = None" by (simp add: map_of_None_find)
  with None show ?thesis by (auto simp: removeFromList_def fun_eq_iff)
next
  case (Some i)
  assume "Event_inv ev"
  with Some show ?thesis by (simp add: removeFromList_def Event_inv_def map_of_umap_erase)
qed

lemma hasSubscriber_removeFromList:
  "Event_inv ev \<Longrightarrow> hasSubscriber b (removeFromList a ev) \<longleftrightarrow> b \<noteq> a \<and> hasSubscriber b ev"
  by (simp add: hasSubscriber_map_of map_of_removeFromList)

lemma Event_inv_removeFromList: "Event_inv ev \<Longrightarrow> Event_inv (removeFromList a ev)"
  by (auto simp: Event_inv_def removeFromList_def distinct_umap_erase split: option.splits)

lemma length_removeFromList:
  "hasSubscriber a ev \<Longrightarrow> Suc (length (subscribers (removeFromList a ev))) = length (subscribers ev)"
  by (auto simp: removeFromList_def hasSubscriber_def length_umap_erase)

lemma Event_inv_empty: "Event_inv empty_Event"
  by (simp add: Event_inv_def empty_Event_def)

lemma Event_inv_perform: "Event_inv ev \<Longrightarrow> Event_inv (perform op ev)"
  by (cases op) (simp_all add: bind_def unbind_def subscribe_def Event_inv_addToList Event_inv_removeFromList)

lemma Event_inv_perform_all: "Event_inv ev \<Longrightarrow> Event_inv (perform_all ops ev)"
  unfolding perform_all_def by (induction ops arbitrary: ev) (simp_all add: Event_inv_perform)

subsection \<open>Facts about the dispatch loop\<close>

lemma fire_loop_frame:
  assumes "\<forall>h\<in>snd ` set (subscribers E). \<forall>w'. event w' = E \<longrightarrow> event (state_of (invoke h e w')) = E"
    and "event w = E" and "set ahead \<subseteq> set (subscribers E)"
  shows "\<exists>out calls'. fire_loop invoke e ahead calls w = Some (out, calls') \<and> event (state_of out) = E
           \<and> (\<forall>w'. out = Invalidated w' \<longrightarrow> (\<exists>h w1. invoke h e w1 = Invalidated w'))"
  using assms(2,3)
proof (induction ahead arbitrary: calls w rule: length_induct)
  case (1 ahead)
  show ?case
  proof (cases ahead)
    case Nil
    then show ?thesis using "1.prems" by (subst fire_loop.simps) simp
  next
    case (Cons subscriber others)
    let ?h = "snd subscriber"
    from Cons "1.prems"(2) have mem: "subscriber \<in> set (subscribers E)" by simp
    then have "?h \<in> snd ` set (subscribers E)" by simp
    with assms(1) "1.prems"(1) have keep: "event (state_of (invoke ?h e w)) = E" by blast
    show ?thesis
    proof (cases "invoke ?h e w")
      case (Returned w')
      with keep have E: "event w' = E" by simp
      let ?ahead = "filter (\<lambda>p. p \<in> set (subscribers (event w'))) others"
      have "length ?ahead < length ahead" using Cons by (simp add: less_Suc_eq_le)
      moreover have "set ?ahead \<subseteq> set (subscribers E)" using E by auto
      ultimately obtain out calls' where
        "fire_loop invoke e ?ahead (calls @ [(?h, e)]) w' = Some (out, calls')"
        "event (state_of out) = E"
        "\<forall>w'. out = Invalidated w' \<longrightarrow> (\<exists>h w1. invoke h e w1 = Invalidated w')"
        using "1.IH" E by blast
      then show ?thesis using Cons Returned mem E
        by (subst fire_loop.simps) simp
    next
      case (Thrown w')
      with keep have "event w' = E" by simp
      then show ?thesis using Cons Thrown by (subst fire_loop.simps) simp
    next
      case (Invalidated w')
      with keep have "event w' = E" by simp
      moreover have "\<exists>h w1. invoke h e w1 = Invalidated w'" using Invalidated by blast
      ultimately show ?thesis using Cons Invalidated by (subst fire_loop.simps) simp
    qed
  qed
qed




subsection \<open>Facts about the derived identity\<close>

lemma double_zero_nat:
  assumes "(2 * n) mod 18446744073709551616 = (0::nat)" "n < 18446744073709551616"
  shows "n = 0 \<or> n = 9223372036854775808"
proof (rule ccontr)
  assume c: "\<not> (n = 0 \<or> n = 9223372036854775808)"
  show False
  proof (cases "n < 9223372036854775808")
    case True
    then have "2 * n < 18446744073709551616" by simp
    then have "(2 * n) mod 18446744073709551616 = 2 * n" by (rule mod_less)
    with assms(1) c show False by simp
  next
    case False
    with c have g: "9223372036854775808 < n" by simp
    have "(2 * n) mod 18446744073709551616 = (2 * n - 18446744073709551616) mod 18446744073709551616"
      using g by (simp add: le_mod_geq)
    also have "\<dots> = 2 * n - 18446744073709551616"
      using assms(2) by (intro mod_less) simp
    finally show False using assms(1) g by simp
  qed
qed

lemma double_zero_word: "(2 :: 64 word) * x = 0 \<Longrightarrow> x = 0 \<or> x = 2 ^ 63"
proof -
  assume a: "2 * x = 0"
  have "unat (2 * x) = (2 * unat x) mod 2 ^ 64"
    by (simp add: unat_word_ariths)
  with a have m: "(2 * unat x) mod 18446744073709551616 = 0" by simp
  have b: "unat x < 18446744073709551616" using unsigned_less [of x, where ?'a = nat] by simp
  from double_zero_nat [OF m b] show ?thesis
  proof
    assume "unat x = 0"
    then show ?thesis by (simp add: unat_eq_0)
  next
    assume "unat x = 9223372036854775808"
    then have "unat x = unat (2 ^ 63 :: 64 word)" by simp
    then have "x = 2 ^ 63" by (simp only: word_unat_eq_iff [symmetric])
    then show ?thesis by simp
  qed
qed

text \<open>The multiplier 10 is twice an odd number, and 5 has an inverse modulo \<open>2 ^ 64\<close>.\<close>

lemma five_inverse: "(0xCCCCCCCCCCCCCCCD :: 64 word) * 5 = 1"
  by simp

lemma ten_times_zero: "(10 :: 64 word) * x = 0 \<longleftrightarrow> x = 0 \<or> x = 2 ^ 63"
proof
  assume a: "10 * x = 0"
  have "2 * x = (0xCCCCCCCCCCCCCCCD * 5) * (2 * x)" by (simp only: five_inverse mult_1)
  also have "\<dots> = 0xCCCCCCCCCCCCCCCD * (10 * x)" by simp
  also have "\<dots> = 0" using a by simp
  finally show "x = 0 \<or> x = 2 ^ 63" by (rule double_zero_word)
next
  assume "x = 0 \<or> x = 2 ^ 63"
  then show "10 * x = 0" by auto
qed

lemma identify_same_member_iff:
  "identify r1 m = identify r2 m \<longleftrightarrow> r1 = r2 \<or> r1 = r2 + 2 ^ 63"
proof -
  have "identify r1 m = identify r2 m \<longleftrightarrow> 10 * (r1 - r2) = 0"
    by (simp add: identify_def algebra_simps)
  also have "\<dots> \<longleftrightarrow> r1 - r2 = 0 \<or> r1 - r2 = 2 ^ 63" by (rule ten_times_zero)
  also have "\<dots> \<longleftrightarrow> r1 = r2 \<or> r1 = r2 + 2 ^ 63" by (auto simp: algebra_simps)
  finally show ?thesis .
qed

lemma below_half_not_apart:
  "unat r1 < 2 ^ 63 \<Longrightarrow> unat r2 < 2 ^ 63 \<Longrightarrow> r1 \<noteq> r2 + (2 ^ 63 :: 64 word)"
proof
  assume a: "unat r1 < 2 ^ 63" "unat r2 < 2 ^ 63" "r1 = r2 + 2 ^ 63"
  have "unat (r2 + 2 ^ 63) = (unat r2 + 2 ^ 63) mod 2 ^ 64"
    by (simp add: unat_word_ariths)
  also have "\<dots> = unat r2 + 2 ^ 63" using a(2) by simp
  finally show False using a(1,3) by simp
qed

lemma map_of_bind:
  "map_of (subscribers (bind m r flag ev)) (identify r m) =
     (case map_of (subscribers ev) (identify r m) of None \<Rightarrow> Some (Bound m r) | Some h \<Rightarrow> Some h)"
proof (cases "hasSubscriber (identify r m) ev")
  case True
  then show ?thesis by (auto simp: bind_def addToList_present hasSubscriber_map_of)
next
  case False
  then show ?thesis by (auto simp: bind_def map_of_addToList_absent hasSubscriber_map_of)
qed

lemma map_of_addToList_other:
  "b \<noteq> a \<Longrightarrow> map_of (subscribers (addToList a h flag ev)) b = map_of (subscribers ev) b"
  by (cases "hasSubscriber a ev") (simp_all add: addToList_present map_of_addToList_absent)

lemma length_addToList_absent:
  "\<not> hasSubscriber a ev \<Longrightarrow> length (subscribers (addToList a h flag ev)) = Suc (length (subscribers ev))"
  by (simp add: subscribers_addToList_absent)

subsection \<open>Facts about call sequences\<close>

lemma bound_keyed_addToList_Bound:
  "bound_keyed ev \<Longrightarrow> bound_keyed (addToList (identify r m) (Bound m r) flag ev)"
  by (auto simp: bound_keyed_def addToList_def umap_insert_def split: option.splits)

lemma bound_keyed_addToList_Lambda:
  "bound_keyed ev \<Longrightarrow> bound_keyed (addToList a (Lambda lam) flag ev)"
  by (auto simp: bound_keyed_def addToList_def umap_insert_def split: option.splits)

lemma bound_keyed_removeFromList: "bound_keyed ev \<Longrightarrow> bound_keyed (removeFromList a ev)"
  using set_umap_erase_subset
  by (fastforce simp: bound_keyed_def removeFromList_def list_all_iff split: option.splits)

lemma bound_keyed_empty: "bound_keyed empty_Event"
  by (simp add: bound_keyed_def empty_Event_def)

lemma bound_keyed_perform: "bound_keyed ev \<Longrightarrow> bound_keyed (perform op ev)"
  by (cases op)
    (simp_all add: bind_def unbind_def subscribe_def bound_keyed_addToList_Bound
      bound_keyed_addToList_Lambda bound_keyed_removeFromList)

lemma bound_keyed_perform_all: "bound_keyed ev \<Longrightarrow> bound_keyed (perform_all ops ev)"
  unfolding perform_all_def by (induction ops arbitrary: ev) (simp_all add: bound_keyed_perform)

text \<open>Both invariants hold of every event that the registration interface can produce.\<close>

lemma reachable_invariants:
  "Event_inv (perform_all ops empty_Event) \<and> bound_keyed (perform_all ops empty_Event)"
  by (simp add: Event_inv_perform_all Event_inv_empty bound_keyed_perform_all bound_keyed_empty)











text \<open>
  A table given in the order in which it is visited. The second handler erases the
  entry visited first; the third entry is still called.
\<close>

lemma erasing_visited_entry_run:
  "fire (\<lambda>h e w. if h = Lambda 2 then Returned (w\<lparr>event := removeFromList 30 (event w)\<rparr>)
                  else Returned w) ''x''
     \<lparr>event = \<lparr>subscribers = [(30, Lambda 3), (20, Lambda 2), (10, Lambda 1)]\<rparr>, rest = ()\<rparr>
   = Some (Returned \<lparr>event = \<lparr>subscribers = [(20, Lambda 2), (10, Lambda 1)]\<rparr>, rest = ()\<rparr>,
           [(Lambda 3, ''x''), (Lambda 2, ''x''), (Lambda 1, ''x'')])"
  by (simp add: fire_def fire_loop.simps removeFromList_def umap_erase_def)


section \<open>Properties of the event\<close>




text \<open>
  C2. Whatever the two flags, binding the same (member, receiver) pair a second time
  leaves the event exactly as the first bind left it, so the handler stored first is not
  replaced; the table then holds exactly one entry under the pair's identity, and a single
  \<open>unbind\<close> of the pair leaves no entry under it.
\<close>

theorem bind_twice_then_unbind:
  assumes "Event_inv ev"
  shows "bind m r f2 (bind m r f1 ev) = bind m r f1 ev
       \<and> length (filter (\<lambda>p. fst p = identify r m) (subscribers (bind m r f2 (bind m r f1 ev)))) = 1
       \<and> \<not> hasSubscriber (identify r m) (unbind m r (bind m r f2 (bind m r f1 ev)))
       \<and> filter (\<lambda>p. fst p = identify r m) (subscribers (unbind m r (bind m r f2 (bind m r f1 ev)))) = []"
proof -
  let ?a = "identify r m"
  let ?ev1 = "bind m r f1 ev"
  have has: "hasSubscriber ?a ?ev1" by (simp add: bind_def hasSubscriber_addToList)
  then have same: "bind m r f2 ?ev1 = ?ev1" by (simp add: bind_def addToList_present)
  have inv1: "Event_inv ?ev1" using assms by (simp add: bind_def Event_inv_addToList)
  have one: "length (filter (\<lambda>p. fst p = ?a) (subscribers ?ev1)) = 1"
    using inv1 has by (simp add: filter_key_unique Event_inv_def hasSubscriber_iff)
  have gone: "\<not> hasSubscriber ?a (unbind m r ?ev1)"
    using inv1 by (simp add: unbind_def hasSubscriber_removeFromList)
  then have "filter (\<lambda>p. fst p = ?a) (subscribers (unbind m r ?ev1)) = []"
    by (force simp: hasSubscriber_iff filter_empty_conv)
  with same one gone show ?thesis by simp
qed

theorem bind_twice_then_unbind_witness:
  "Event_inv empty_Event
   \<and> bind 0x400A80 0x1000 ONLY_UNIQUE (bind 0x400A80 0x1000 DEFAULT empty_Event)
       = bind 0x400A80 0x1000 DEFAULT empty_Event
   \<and> length (filter (\<lambda>p. fst p = identify 0x1000 0x400A80)
        (subscribers (bind 0x400A80 0x1000 ONLY_UNIQUE (bind 0x400A80 0x1000 DEFAULT empty_Event)))) = 1
   \<and> \<not> hasSubscriber (identify 0x1000 0x400A80)
        (unbind 0x400A80 0x1000 (bind 0x400A80 0x1000 ONLY_UNIQUE (bind 0x400A80 0x1000 DEFAULT empty_Event)))
   \<and> filter (\<lambda>p. fst p = identify 0x1000 0x400A80)
        (subscribers (unbind 0x400A80 0x1000
           (bind 0x400A80 0x1000 ONLY_UNIQUE (bind 0x400A80 0x1000 DEFAULT empty_Event)))) = []"
proof -
  have h: "Event_inv empty_Event" by (simp add: Event_inv_def empty_Event_def)
  from bind_twice_then_unbind [OF h, of "0x400A80" "0x1000" ONLY_UNIQUE DEFAULT] h
  show ?thesis by blast
qed

text \<open>
  C3. Registering under \<open>DEFAULT\<close> and under \<open>ONLY_UNIQUE\<close> gives the same event, for
  \<open>_addToList\<close> and hence for \<open>bind\<close>; under either flag an insert whose identity is
  already present leaves the event as it was.
\<close>

theorem flags_equivalent:
  "addToList a h DEFAULT ev = addToList a h ONLY_UNIQUE ev
   \<and> bind m r DEFAULT ev = bind m r ONLY_UNIQUE ev
   \<and> (hasSubscriber a ev \<longrightarrow> addToList a h DEFAULT ev = ev \<and> addToList a h ONLY_UNIQUE ev = ev)"
  using addToList_flag_irrelevant [of a h ONLY_UNIQUE ev]
    addToList_flag_irrelevant [of "identify r m" "Bound m r" ONLY_UNIQUE ev]
  by (simp add: bind_def addToList_present)

theorem flags_equivalent_witness:
  "hasSubscriber 0x4050A0 \<lparr>subscribers = [(0x4050A0, Bound 0x400000 0x1010)]\<rparr>
   \<and> addToList 0x4050A0 (Lambda 3) DEFAULT \<lparr>subscribers = [(0x4050A0, Bound 0x400000 0x1010)]\<rparr>
       = \<lparr>subscribers = [(0x4050A0, Bound 0x400000 0x1010)]\<rparr>
   \<and> addToList 0x4050A0 (Lambda 3) ONLY_UNIQUE \<lparr>subscribers = [(0x4050A0, Bound 0x400000 0x1010)]\<rparr>
       = \<lparr>subscribers = [(0x4050A0, Bound 0x400000 0x1010)]\<rparr>"
proof -
  have h: "hasSubscriber 0x4050A0 \<lparr>subscribers = [(0x4050A0, Bound 0x400000 0x1010)]\<rparr>"
    by (simp add: hasSubscriber_def)
  with flags_equivalent [of "0x4050A0" "Lambda 3" "\<lparr>subscribers = [(0x4050A0, Bound 0x400000 0x1010)]\<rparr>"]
  show ?thesis by blast
qed

text \<open>
  C4. The derived identity is a function of the receiver address and the member address
  alone: receiver address times 10 plus member address in 64-bit unsigned arithmetic,
  that is, the same sum of natural numbers taken modulo \<open>2 ^ 64\<close>.
\<close>

theorem identify_formula:
  "identify r m = r * 10 + m \<and> unat (identify r m) = (unat r * 10 + unat m) mod 2 ^ 64"
  by (simp add: identify_def unat_word_ariths mod_simps)

text \<open>
  C5. As stated the claim fails when the identity of one of the two pairs is already
  taken by a third pair: that \<open>bind\<close> is ignored, so no subscription of the pair comes
  about, and its \<open>unbind\<close> removes the third pair's entry. It also fails for two receivers
  whose addresses differ by \<open>2 ^ 63\<close>: the multiplication by 10 wraps around and both
  pairs get one identity. Both are shown after the next two theorems.
  What holds: for receivers \<open>r1 \<noteq> r2\<close> that are not \<open>2 ^ 63\<close> apart (so for any two
  distinct addresses below \<open>2 ^ 63\<close>, by
  \<open>below_half_not_apart\<close>) and any member, on a table with unique keys, the two identities
  differ; after both binds both are registered, each with the newly bound handler if its
  identity was not registered before, the table growing by two entries if neither was;
  and \<open>unbind\<close> of either pair removes its identity and leaves the entry of the other as
  it was.
\<close>

theorem distinct_receivers_independent:
  assumes "Event_inv ev" and "r1 \<noteq> r2" and "r1 \<noteq> r2 + 2 ^ 63"
    and "ev' = bind m r2 f2 (bind m r1 f1 ev)"
  shows "identify r1 m \<noteq> identify r2 m
    \<and> hasSubscriber (identify r1 m) ev' \<and> hasSubscriber (identify r2 m) ev'
    \<and> (\<not> hasSubscriber (identify r1 m) ev \<longrightarrow> map_of (subscribers ev') (identify r1 m) = Some (Bound m r1))
    \<and> (\<not> hasSubscriber (identify r2 m) ev \<longrightarrow> map_of (subscribers ev') (identify r2 m) = Some (Bound m r2))
    \<and> (\<not> hasSubscriber (identify r1 m) ev \<and> \<not> hasSubscriber (identify r2 m) ev \<longrightarrow>
          length (subscribers ev') = length (subscribers ev) + 2)
    \<and> \<not> hasSubscriber (identify r1 m) (unbind m r1 ev')
    \<and> map_of (subscribers (unbind m r1 ev')) (identify r2 m) = map_of (subscribers ev') (identify r2 m)
    \<and> \<not> hasSubscriber (identify r2 m) (unbind m r2 ev')
    \<and> map_of (subscribers (unbind m r2 ev')) (identify r1 m) = map_of (subscribers ev') (identify r1 m)"
proof -
  let ?a1 = "identify r1 m" and ?a2 = "identify r2 m"
  let ?ev1 = "bind m r1 f1 ev"
  have ne: "?a1 \<noteq> ?a2" using assms(2,3) by (simp add: identify_same_member_iff)
  have inv1: "Event_inv ?ev1" using assms(1) by (simp add: bind_def Event_inv_addToList)
  have inv': "Event_inv ev'" using inv1 assms(4) by (simp add: bind_def Event_inv_addToList)
  have has1: "hasSubscriber ?a1 ev'" and has2: "hasSubscriber ?a2 ev'"
    using assms(4) by (simp_all add: bind_def hasSubscriber_addToList)
  have at1: "map_of (subscribers ev') ?a1 = map_of (subscribers ?ev1) ?a1"
    using ne assms(4) by (simp add: bind_def [of m r2] map_of_addToList_other)
  have new1: "\<not> hasSubscriber ?a1 ev \<longrightarrow> map_of (subscribers ev') ?a1 = Some (Bound m r1)"
    using at1 by (simp add: map_of_bind hasSubscriber_map_of)
  have old2: "map_of (subscribers ?ev1) ?a2 = map_of (subscribers ev) ?a2"
    using ne by (simp add: bind_def [of m r1] map_of_addToList_other)
  have new2: "\<not> hasSubscriber ?a2 ev \<longrightarrow> map_of (subscribers ev') ?a2 = Some (Bound m r2)"
    using old2 assms(4) by (simp add: map_of_bind hasSubscriber_map_of)
  have len: "\<not> hasSubscriber ?a1 ev \<and> \<not> hasSubscriber ?a2 ev \<longrightarrow>
          length (subscribers ev') = length (subscribers ev) + 2"
  proof
    assume f: "\<not> hasSubscriber ?a1 ev \<and> \<not> hasSubscriber ?a2 ev"
    then have "length (subscribers ?ev1) = Suc (length (subscribers ev))"
      by (simp add: bind_def length_addToList_absent)
    moreover have "\<not> hasSubscriber ?a2 ?ev1"
      using f old2 by (simp add: hasSubscriber_map_of)
    then have "length (subscribers ev') = Suc (length (subscribers ?ev1))"
      using assms(4) by (simp add: bind_def [of m r2] length_addToList_absent)
    ultimately show "length (subscribers ev') = length (subscribers ev) + 2" by simp
  qed
  have rm1: "map_of (subscribers (unbind m r1 ev')) = (map_of (subscribers ev'))(?a1 := None)"
    and rm2: "map_of (subscribers (unbind m r2 ev')) = (map_of (subscribers ev'))(?a2 := None)"
    using inv' by (simp_all add: unbind_def map_of_removeFromList)
  have "\<not> hasSubscriber ?a1 (unbind m r1 ev')" "\<not> hasSubscriber ?a2 (unbind m r2 ev')"
    by (simp_all add: hasSubscriber_map_of rm1 rm2)
  moreover have "map_of (subscribers (unbind m r1 ev')) ?a2 = map_of (subscribers ev') ?a2"
    "map_of (subscribers (unbind m r2 ev')) ?a1 = map_of (subscribers ev') ?a1"
    using ne by (simp_all add: rm1 rm2)
  ultimately show ?thesis using ne has1 has2 new1 new2 len by blast
qed

theorem distinct_receivers_independent_witness:
  "Event_inv empty_Event
   \<and> (0x7FFC1000 :: Address) \<noteq> 0x7FFC1040
   \<and> (0x7FFC1000 :: Address) \<noteq> 0x7FFC1040 + 2 ^ 63
   \<and> identify 0x7FFC1000 0x401230 \<noteq> identify 0x7FFC1040 0x401230
   \<and> map_of (subscribers (bind 0x401230 0x7FFC1040 ONLY_UNIQUE (bind 0x401230 0x7FFC1000 DEFAULT empty_Event)))
        (identify 0x7FFC1000 0x401230) = Some (Bound 0x401230 0x7FFC1000)
   \<and> map_of (subscribers (bind 0x401230 0x7FFC1040 ONLY_UNIQUE (bind 0x401230 0x7FFC1000 DEFAULT empty_Event)))
        (identify 0x7FFC1040 0x401230) = Some (Bound 0x401230 0x7FFC1040)
   \<and> length (subscribers (bind 0x401230 0x7FFC1040 ONLY_UNIQUE (bind 0x401230 0x7FFC1000 DEFAULT empty_Event)))
        = length (subscribers empty_Event) + 2
   \<and> \<not> hasSubscriber (identify 0x7FFC1000 0x401230)
        (unbind 0x401230 0x7FFC1000
          (bind 0x401230 0x7FFC1040 ONLY_UNIQUE (bind 0x401230 0x7FFC1000 DEFAULT empty_Event)))
   \<and> map_of (subscribers (unbind 0x401230 0x7FFC1000
          (bind 0x401230 0x7FFC1040 ONLY_UNIQUE (bind 0x401230 0x7FFC1000 DEFAULT empty_Event))))
        (identify 0x7FFC1040 0x401230)
       = map_of (subscribers (bind 0x401230 0x7FFC1040 ONLY_UNIQUE (bind 0x401230 0x7FFC1000 DEFAULT empty_Event)))
        (identify 0x7FFC1040 0x401230)"
proof -
  have h1: "Event_inv empty_Event" by (simp add: Event_inv_def empty_Event_def)
  have h2: "(0x7FFC1000 :: Address) \<noteq> 0x7FFC1040" by simp
  have h3: "(0x7FFC1000 :: Address) \<noteq> 0x7FFC1040 + 2 ^ 63" by simp
  have f: "\<not> hasSubscriber (identify 0x7FFC1000 0x401230) empty_Event"
    "\<not> hasSubscriber (identify 0x7FFC1040 0x401230) empty_Event"
    by (simp_all add: hasSubscriber_def empty_Event_def)
  note t = distinct_receivers_independent [OF h1 h2 h3 refl, of "0x401230" ONLY_UNIQUE DEFAULT]
  from t f h1 h2 h3 show ?thesis by blast
qed

text \<open>
  Inputs at which C5 fails. First, at ordinary addresses: the identity of the pair
  \<open>(0x400000, 0x1008)\<close> is already taken by the pair \<open>(0x400050, 0x1000)\<close>. Binding the
  member \<open>0x400000\<close> on the distinct receivers \<open>0x1008\<close> and \<open>0x1010\<close> then gives no
  subscription of the first pair: the entry under its identity is the handler of the
  third pair, and \<open>unbind\<close> of the first pair removes that. Second, the receivers \<open>0x1000\<close>
  and \<open>0x8000000000001000\<close> are distinct and \<open>2 ^ 63\<close> apart: the identities are equal, the
  second \<open>bind\<close> adds nothing, and \<open>unbind\<close> of the second pair removes the subscription
  of the first. (Two live objects are not that far apart on current platforms; the
  statement ranges over all 64-bit addresses, hence the condition.)
\<close>

theorem distinct_receivers_collide:
  "(0x1008 :: Address) \<noteq> 0x1010
   \<and> map_of (subscribers (bind 0x400000 0x1010 DEFAULT (bind 0x400000 0x1008 DEFAULT Occupied_Event)))
        (identify 0x1008 0x400000) = Some (Bound 0x400050 0x1000)
   \<and> Bound 0x400000 0x1008
        \<notin> snd ` set (subscribers (bind 0x400000 0x1010 DEFAULT (bind 0x400000 0x1008 DEFAULT Occupied_Event)))
   \<and> hasSubscriber (identify 0x1000 0x400050)
        (bind 0x400000 0x1010 DEFAULT (bind 0x400000 0x1008 DEFAULT Occupied_Event))
   \<and> \<not> hasSubscriber (identify 0x1000 0x400050)
        (unbind 0x400000 0x1008
          (bind 0x400000 0x1010 DEFAULT (bind 0x400000 0x1008 DEFAULT Occupied_Event)))
   \<and> (0x1000 :: Address) \<noteq> 0x8000000000001000
   \<and> identify 0x1000 0x401230 = identify 0x8000000000001000 0x401230
   \<and> bind 0x401230 0x8000000000001000 DEFAULT (bind 0x401230 0x1000 DEFAULT empty_Event)
       = bind 0x401230 0x1000 DEFAULT empty_Event
   \<and> unbind 0x401230 0x8000000000001000
        (bind 0x401230 0x8000000000001000 DEFAULT (bind 0x401230 0x1000 DEFAULT empty_Event))
       = empty_Event"
  by (simp add: Occupied_Event_def bind_def unbind_def addToList_def removeFromList_def umap_insert_def
      umap_erase_def hasSubscriber_def identify_def empty_Event_def)

text \<open>
  C6. \<open>unbind\<close> of a pair whose derived identity is not in the table returns the event
  unchanged, and so with the same number of entries. The operation has no failing branch.
\<close>

theorem unbind_absent_noop:
  "\<not> hasSubscriber (identify r m) ev \<Longrightarrow>
     unbind m r ev = ev \<and> length (subscribers (unbind m r ev)) = length (subscribers ev)"
  by (simp add: unbind_def removeFromList_absent)

theorem unbind_absent_noop_witness:
  "\<not> hasSubscriber (identify 0x1008 0x400A80) (bind 0x400A80 0x1000 DEFAULT empty_Event)
   \<and> unbind 0x400A80 0x1008 (bind 0x400A80 0x1000 DEFAULT empty_Event)
       = bind 0x400A80 0x1000 DEFAULT empty_Event
   \<and> length (subscribers (unbind 0x400A80 0x1008 (bind 0x400A80 0x1000 DEFAULT empty_Event)))
       = length (subscribers (bind 0x400A80 0x1000 DEFAULT empty_Event))"
proof -
  have h: "\<not> hasSubscriber (identify 0x1008 0x400A80) (bind 0x400A80 0x1000 DEFAULT empty_Event)"
    by (simp add: hasSubscriber_def bind_def addToList_def umap_insert_def identify_def empty_Event_def)
  from unbind_absent_noop [OF h] h show ?thesis by blast
qed

text \<open>
  C7. \<open>hasSubscriber\<close> answers true for an identity right after a \<open>bind\<close>, an
  \<open>operator+=\<close> or an \<open>_addToList\<close> under that identity, and false right after an
  \<open>unbind\<close> or \<open>_removeFromList\<close> of it. It is a \<open>const\<close> member function, a function
  from the event to the answer, so the event it is asked about is the event afterwards.
\<close>

theorem hasSubscriber_after:
  "hasSubscriber (identify r m) (bind m r flag ev)
   \<and> hasSubscriber (identify slot z) (subscribe slot z lam ev)
   \<and> hasSubscriber a (addToList a h flag ev)
   \<and> (Event_inv ev \<longrightarrow> \<not> hasSubscriber (identify r m) (unbind m r ev)
                     \<and> \<not> hasSubscriber a (removeFromList a ev))"
  by (simp add: bind_def subscribe_def unbind_def hasSubscriber_addToList hasSubscriber_removeFromList)

theorem hasSubscriber_after_witness:
  "Event_inv (bind 0x400A80 0x1000 DEFAULT empty_Event)
   \<and> hasSubscriber (identify 0x1000 0x400A80) (bind 0x400A80 0x1000 DEFAULT empty_Event)
   \<and> \<not> hasSubscriber (identify 0x1000 0x400A80)
        (unbind 0x400A80 0x1000 (bind 0x400A80 0x1000 DEFAULT empty_Event))"
proof -
  have h: "Event_inv (bind 0x400A80 0x1000 DEFAULT empty_Event)"
    by (simp add: Event_inv_def bind_def addToList_def umap_insert_def empty_Event_def)
  from hasSubscriber_after [of "0x1000" "0x400A80" DEFAULT empty_Event]
    hasSubscriber_after [of "0x1000" "0x400A80" DEFAULT "bind 0x400A80 0x1000 DEFAULT empty_Event"] h
  show ?thesis by blast
qed

text \<open>
  C8. On an event whose table is empty, \<open>fire\<close> (and \<open>operator()\<close>) returns normally with
  the state it was given and has called no handler, whatever the arguments and whatever
  the handlers of the program would do.
\<close>

theorem fire_empty:
  "subscribers (event w) = [] \<Longrightarrow>
     fire invoke e w = Some (Returned w, []) \<and> call_operator invoke e w = Some (Returned w, [])"
proof -
  assume "subscribers (event w) = []"
  then have "fire_loop invoke e (subscribers (event w)) [] w = Some (Returned w, [])"
    by (subst fire_loop.simps) simp
  then show ?thesis by (simp add: call_operator_def fire_def)
qed

theorem fire_empty_witness:
  "subscribers (event \<lparr>event = empty_Event, rest = ()\<rparr>) = []
   \<and> fire (\<lambda>h e w. Thrown w) (7::nat) \<lparr>event = empty_Event, rest = ()\<rparr>
       = Some (Returned \<lparr>event = empty_Event, rest = ()\<rparr>, [])
   \<and> call_operator (\<lambda>h e w. Thrown w) (7::nat) \<lparr>event = empty_Event, rest = ()\<rparr>
       = Some (Returned \<lparr>event = empty_Event, rest = ()\<rparr>, [])"
proof -
  have h: "subscribers (event \<lparr>event = empty_Event, rest = ()\<rparr>) = []"
    by (simp add: empty_Event_def)
  from fire_empty [where invoke = "\<lambda>h e w. Thrown w" and e = "7::nat", OF h] h
  show ?thesis by simp
qed

text \<open>
  C9. The arity check belongs to the instantiation of the class template: a parameter pack
  of 0 to 4 types yields an event, a longer one yields the diagnostic. None of the
  operations on an event has an error result, so the failure cannot show at a call.
\<close>

theorem arity_check:
  "((\<exists>ev. instantiate_Event n = Inr ev) \<longleftrightarrow> n \<le> 4)
   \<and> (instantiate_Event n = Inl Too_many_arguments \<longleftrightarrow> 4 < n)"
  by (auto simp: instantiate_Event_def MAX_EVENT_ARGS_def)

theorem arity_check_witness:
  "(\<exists>ev. instantiate_Event 4 = Inr ev) \<and> instantiate_Event 5 = Inl Too_many_arguments"
  using arity_check [of 4] arity_check [of 5] by simp

text \<open>
  C10. If none of the registered handlers changes the event when it is called with the
  arguments of the dispatch, then \<open>fire\<close> returns and the event in the final state is the
  event it started with. It returns normally or by an exception of a handler; it ends
  with an invalid iterator only if a call of a handler reported a rehash.
\<close>

theorem fire_keeps_table:
  assumes "\<forall>h\<in>snd ` set (subscribers (event w)). \<forall>w'. event w' = event w \<longrightarrow>
             event (state_of (invoke h e w')) = event w"
  shows "\<exists>out calls. fire invoke e w = Some (out, calls) \<and> event (state_of out) = event w
           \<and> (\<forall>w'. out = Invalidated w' \<longrightarrow> (\<exists>h w1. invoke h e w1 = Invalidated w'))"
  unfolding fire_def
  using fire_loop_frame [of "event w" invoke e w "subscribers (event w)" "[]"] assms by simp

theorem fire_keeps_table_witness:
  "\<exists>out calls. fire logging ''olleH'' Consumer_World = Some (out, calls)
        \<and> event (state_of out) = event Consumer_World"
proof -
  have h: "\<forall>h\<in>snd ` set (subscribers (event Consumer_World)).
      \<forall>w'. event w' = event Consumer_World \<longrightarrow>
        event (state_of (logging h ''olleH'' w')) = event Consumer_World"
    by (simp add: logging_def)
  from fire_keeps_table [of Consumer_World logging "''olleH''"] h
  show ?thesis by blast
qed

end
